theory Spec2Isabelle
  imports Complex_Main
begin

section \<open>Python primitives used by the recorder core\<close>

text \<open>
  The recorder core (\<^verbatim>\<open>recorder_core.py\<close>) is embedded as pure functions on an
  explicit state. A Python character is its code point, a natural number, and a Python
  string that can hold typed characters is a list of code points; \<open>py s\<close> is the
  ASCII literal \<open>s\<close> as such a string. The strings whose characters the core never
  looks at one by one, or that are ASCII by construction (window titles, the working
  directory, paths, \<open>str(key)\<close>, \<open>str(button)\<close>), stay Isabelle strings.

  \<open>isprintable\<close>: on ASCII the printable characters are 32 to 126. Beyond ASCII
  Python asks the Unicode database of the interpreter, which is no part of the
  repository: it is the parameter \<open>up\<close>.
\<close>

type_synonym pystr = "nat list"

definition py :: "string \<Rightarrow> pystr" where
  "py s = map of_char s"

definition isprintable :: "(nat \<Rightarrow> bool) \<Rightarrow> nat \<Rightarrow> bool" where
  "isprintable up c = (if c < 128 then 32 \<le> c \<and> c < 127 else up c)"

text \<open>The characters of the ASCII strings below, for \<open>title\<close>.\<close>

definition ord :: "char \<Rightarrow> nat" where
  "ord c = of_char c"

definition islower :: "char \<Rightarrow> bool" where
  "islower c = (97 \<le> ord c \<and> ord c \<le> 122)"

definition isupper :: "char \<Rightarrow> bool" where
  "isupper c = (65 \<le> ord c \<and> ord c \<le> 90)"

definition upper :: "char \<Rightarrow> char" where
  "upper c = (if islower c then char_of (ord c - 32) else c)"

definition lower :: "char \<Rightarrow> char" where
  "lower c = (if isupper c then char_of (ord c + 32) else c)"

text \<open>
  \<open>str.title()\<close>: a cased character that follows an uncased one (or starts the
  string) is upper-cased, a cased character that follows a cased one is lower-cased.
  The flag is Python's \<open>previous_is_cased\<close>. The strings it is applied to are the
  \<open>str(key)\<close> of keyboard keys, which are ASCII.
\<close>

fun title_from :: "bool \<Rightarrow> string \<Rightarrow> string" where
  "title_from prev [] = []"
| "title_from prev (c # cs) =
     (if islower c then (if prev then c else upper c) # title_from True cs
      else if isupper c then (if prev then lower c else c) # title_from True cs
      else c # title_from False cs)"

definition title :: "string \<Rightarrow> string" where
  "title s = title_from False s"

text \<open>
  \<open>s.replace(old, new)\<close>: every non-overlapping occurrence of \<open>old\<close>, left to
  right. For an empty \<open>old\<close> Python puts \<open>new\<close> before every character and at
  the end.
\<close>

fun replace :: "string \<Rightarrow> string \<Rightarrow> string \<Rightarrow> string" where
  "replace old new [] = (if old = [] then new else [])"
| "replace old new (c # cs) =
     (if old = [] then new @ c # replace old new cs
      else if take (length old) (c # cs) = old
      then new @ replace old new (drop (length old) (c # cs))
      else c # replace old new cs)"

text \<open>\<open>sep.join(parts)\<close>.\<close>

fun join :: "'a list \<Rightarrow> 'a list list \<Rightarrow> 'a list" where
  "join sep [] = []"
| "join sep [p] = p"
| "join sep (p # q # ps) = p @ sep @ join sep (q # ps)"

text \<open>Decimal rendering: \<open>str(n)\<close> of an integer, and the format \<open>{:04d}\<close>.\<close>

fun str_nat :: "nat \<Rightarrow> string" where
  "str_nat n = (if n < 10 then [char_of (48 + n)]
                else str_nat (n div 10) @ [char_of (48 + n mod 10)])"

declare str_nat.simps [simp del]

definition str_int :: "int \<Rightarrow> string" where
  "str_int i = (if i < 0 then CHR ''-'' # str_nat (nat (- i)) else str_nat (nat i))"

definition zfill :: "nat \<Rightarrow> string \<Rightarrow> string" where
  "zfill w s = replicate (w - length s) CHR ''0'' @ s"

definition fmt_04d :: "int \<Rightarrow> string" where
  "fmt_04d i = (if i < 0 then CHR ''-'' # zfill 3 (str_nat (nat (- i)))
                else zfill 4 (str_nat (nat i)))"

section \<open>Keys and their rendering\<close>

text \<open>
  A key delivered by the keyboard listener is observed by the core in two ways only:
  \<open>key.char\<close>, here the code point of that character (\<open>None\<close> when the attribute
  is absent or \<open>None\<close>, as for a special key), and \<open>str(key)\<close>, which for a
  special key is \<open>Key.enter\<close>, \<open>Key.ctrl_l\<close> and so on. \<open>ord(key.char)\<close> is the
  code point itself.
\<close>

datatype key = Key (char: "nat option") (str: string)

definition key_mapping :: "(string \<times> string) list" where
  "key_mapping =
     [(''Enter'', ''Enter''), (''Space'', ''Space''), (''Tab'', ''Tab''),
      (''Backspace'', ''Backspace''), (''Delete'', ''Delete''), (''Escape'', ''Escape''),
      (''Shift'', ''Shift''), (''Shift_L'', ''Shift''), (''Shift_R'', ''Shift''),
      (''Ctrl'', ''Ctrl''), (''Ctrl_L'', ''Ctrl''), (''Ctrl_R'', ''Ctrl''),
      (''Alt'', ''Alt''), (''Alt_L'', ''Alt''), (''Alt_R'', ''Alt''),
      (''Up'', ''Up Arrow''), (''Down'', ''Down Arrow''),
      (''Left'', ''Left Arrow''), (''Right'', ''Right Arrow'')]"

definition key_to_name :: "(nat \<Rightarrow> bool) \<Rightarrow> key \<Rightarrow> pystr" where
  "key_to_name up k =
     (case char k of
        Some c \<Rightarrow>
          if c = 32 then py ''Space''
          else if isprintable up c then [c]
          else py (''Char('' @ str_nat c @ '')'')
      | None \<Rightarrow>
          (let key_str = title (replace [CHR 0x27] [] (replace ''Key.'' [] (str k)))
           in py (case map_of key_mapping key_str of Some v \<Rightarrow> v | None \<Rightarrow> key_str)))"

definition is_safe_for_xml :: "(nat \<Rightarrow> bool) \<Rightarrow> pystr \<Rightarrow> bool" where
  "is_safe_for_xml up text =
     (text \<noteq> [] \<and>
      list_all (\<lambda>c. \<not> (c < 32 \<and> c \<notin> set [9, 10, 13]) \<and>
                     \<not> (c > 127 \<and> \<not> isprintable up c)) text)"

definition text_parts :: "(nat \<Rightarrow> bool) \<Rightarrow> key list \<Rightarrow> pystr list" where
  "text_parts up keystrokes =
     filter (\<lambda>key_name. is_safe_for_xml up key_name \<and>
                key_name \<notin> set (map py [''Char(19)'', ''Ctrl_L'', ''Shift_L'', ''Alt_L'']))
       (map (key_to_name up) keystrokes)"

definition special_keys :: "(nat \<Rightarrow> bool) \<Rightarrow> key list \<Rightarrow> pystr list" where
  "special_keys up keystrokes =
     filter (\<lambda>key_name. key_name \<in> set (map py [''Enter'', ''Space'', ''Tab'', ''Backspace'',
                                                  ''Delete'', ''Escape'']))
       (map (key_to_name up) keystrokes)"

definition keystrokes_to_text :: "(nat \<Rightarrow> bool) \<Rightarrow> key list \<Rightarrow> pystr" where
  "keystrokes_to_text up keystrokes =
     (if text_parts up keystrokes = [] then
        (if special_keys up keystrokes \<noteq> []
         then py ''Pressed: '' @ join (py '', '') (special_keys up keystrokes)
         else py ''Special keys pressed'')
      else concat (text_parts up keystrokes))"

section \<open>Recorder state\<close>

text \<open>
  The dictionaries of the source have fixed keys and are records here. A step is the
  \<open>step_data\<close> dictionary; its key \<open>type\<close> is the field \<open>step_type\<close> and its
  key \<open>keystrokes\<close> the field \<open>key_strs\<close>; a key the dictionary of that kind of
  step does not have is \<open>None\<close>. The \<open>content\<close> of a step is a Python string of code
  points, since it can hold typed characters. The \<open>metadata\<close> dictionary of a session is
  constant and never read by the core; it is left out. A \<open>datetime\<close> is the clock
  reading in seconds, a
  \<open>timedelta\<close> a number of seconds (\<open>total_seconds\<close> is the identity; the rounding
  of floating point is not part of the model).
\<close>

record step_data =
  step_number :: int
  timestamp :: real
  step_type :: string
  content :: pystr
  application :: string
  screenshot :: "string option"
  coordinates :: "(int \<times> int) option"
  button :: "string option"
  key_strs :: "string list option"

record stats =
  clicks :: int
  keystrokes :: int
  "notes" :: int
  applications :: "string set"
  total_steps :: int
  recording_duration :: real

record RecordingSession =
  session_start_time :: "real option"
  end_time :: "real option"
  steps :: "step_data list"
  screenshots :: "string list"
  statistics :: stats

text \<open>
  The queue holds the tuples \<open>("click", x, y, button)\<close>, the only kind the core
  puts there; a button is its \<open>str(button)\<close>.
\<close>

datatype queue_item = QClick int int string

text \<open>
  The core's fields. A listener field is \<open>True\<close> when it holds a listener object and
  \<open>False\<close> when it is \<open>None\<close>. The three callbacks are left unset, as the
  constructor leaves them. The timer thread is not a field: its loop is the function
  \<open>timer_loop\<close> below.
\<close>

record StepRecorderCore =
  recording :: bool
  paused :: bool
  step :: int
  start_time :: "real option"
  queue :: "queue_item list"
  outputs :: "string list"
  last_click :: "int \<times> int"
  current_keystrokes :: "key list"
  last_key_time :: real
  key_grouping_delay :: real
  session :: RecordingSession
  mouse_listener :: bool
  kb_listener :: bool
  timer_running :: bool

text \<open>
  What an operation reads from outside the recorder: the clock as \<open>datetime.now()\<close>,
  the clock as the float \<open>datetime.now().timestamp() * 1000\<close> that
  \<open>_on_key_release\<close> computes (the code subtracts two such readings, or a reading
  and the initial 0; that subtraction is exact), the foreground window's title
  (\<open>None\<close> when \<open>win32gui\<close> is missing or raises), whether the screen grab, the
  drawing and the saving of the screenshot succeed, the working directory that
  \<open>os.path.abspath\<close> resolves against, and the interpreter's \<open>isprintable\<close>
  beyond ASCII.
\<close>

record env =
  now :: real
  now_ms :: real
  window :: "string option"
  capture_ok :: bool
  cwd :: string
  unicode_printable :: "nat \<Rightarrow> bool"

datatype error = ListenerError | CaptureError

datatype 'a outcome = Returned 'a | Raised error

text \<open>How starting the two listeners ends: each may fail when it is built or started.\<close>

datatype listener_start =
  ListenersOk | MouseCtorFails | MouseStartFails | KbCtorFails | KbStartFails

definition empty_stats :: stats where
  "empty_stats = \<lparr>clicks = 0, keystrokes = 0, notes = 0, applications = {},
                   total_steps = 0, recording_duration = 0\<rparr>"

definition new_session :: RecordingSession where
  "new_session = \<lparr>session_start_time = None, end_time = None, steps = [],
                   screenshots = [], statistics = empty_stats\<rparr>"

definition init :: StepRecorderCore where
  "init = \<lparr>recording = False, paused = False, step = 0, start_time = None,
            queue = [], outputs = [], last_click = (100, 100), current_keystrokes = [],
            last_key_time = 0, key_grouping_delay = 1000, session = new_session,
            mouse_listener = False, kb_listener = False, timer_running = False\<rparr>"

section \<open>Operations\<close>

definition get_active_window_title :: "env \<Rightarrow> string" where
  "get_active_window_title e =
     (case window e of
        Some t \<Rightarrow> if t = [] then ''Unknown App'' else t
      | None \<Rightarrow> ''Unknown App'')"

text \<open>
  \<open>os.path.abspath\<close> of a bare file name: the working directory, a separator unless
  the directory ends in one, and the name.
\<close>

definition abspath :: "string \<Rightarrow> string \<Rightarrow> string" where
  "abspath dir name =
     (if dir \<noteq> [] \<and> last dir = CHR ''/'' then dir @ name else dir @ ''/'' @ name)"

text \<open>
  \<open>_capture_and_highlight\<close>: a failure of the grab, the drawing or the save raises
  before \<open>outputs\<close> is touched; nothing in the function catches it.
\<close>

definition capture_and_highlight :: "int \<Rightarrow> int \<Rightarrow> env \<Rightarrow> StepRecorderCore \<Rightarrow> string outcome \<times> StepRecorderCore" where
  "capture_and_highlight x y e c =
     (if \<not> capture_ok e then (Raised CaptureError, c)
      else (let path = abspath (cwd e) (''step_'' @ fmt_04d (step c) @ ''.png'')
            in (Returned path, c\<lparr>outputs := outputs c @ [path]\<rparr>)))"

definition upd_stats :: "(stats \<Rightarrow> stats) \<Rightarrow> StepRecorderCore \<Rightarrow> StepRecorderCore" where
  "upd_stats f c = c\<lparr>session := (session c)\<lparr>statistics := f (statistics (session c))\<rparr>\<rparr>"

definition record_keystroke_group :: "env \<Rightarrow> StepRecorderCore \<Rightarrow> unit outcome \<times> StepRecorderCore" where
  "record_keystroke_group e c =
     (if current_keystrokes c = [] then (Returned (), c)
      else
        (let c1 = c\<lparr>step := step c + 1\<rparr>;
             c2 = upd_stats (\<lambda>s. s\<lparr>total_steps := total_steps s + 1\<rparr>) c1;
             c3 = upd_stats (\<lambda>s. s\<lparr>keystrokes := keystrokes s
                                        + int (length (current_keystrokes c2))\<rparr>) c2;
             keystroke_text = keystrokes_to_text (unicode_printable e) (current_keystrokes c3)
         in case capture_and_highlight (fst (last_click c3)) (snd (last_click c3)) e c3 of
              (Raised err, c4) \<Rightarrow> (Raised err, c4)
            | (Returned img_path, c4) \<Rightarrow>
                (let sd = \<lparr>step_number = step c4, timestamp = now e,
                           step_type = ''keystroke'', content = keystroke_text,
                           application = get_active_window_title e,
                           screenshot = Some img_path,
                           coordinates = Some (last_click c4), button = None,
                           key_strs = Some (map str (current_keystrokes c4))\<rparr>;
                     c5 = c4\<lparr>session := (session c4)\<lparr>steps := steps (session c4) @ [sd],
                              screenshots := screenshots (session c4) @ [img_path]\<rparr>\<rparr>;
                     c6 = upd_stats (\<lambda>s. s\<lparr>applications :=
                                        insert (application sd) (applications s)\<rparr>) c5
                 in (Returned (), c6\<lparr>current_keystrokes := []\<rparr>))))"

definition record_click :: "int \<Rightarrow> int \<Rightarrow> string \<Rightarrow> env \<Rightarrow> StepRecorderCore \<Rightarrow> unit outcome \<times> StepRecorderCore" where
  "record_click x y b e c =
     (let c1 = c\<lparr>step := step c + 1\<rparr>;
          c2 = upd_stats (\<lambda>s. s\<lparr>total_steps := total_steps s + 1\<rparr>) c1;
          c3 = upd_stats (\<lambda>s. s\<lparr>clicks := clicks s + 1\<rparr>) c2
      in case capture_and_highlight x y e c3 of
           (Raised err, c4) \<Rightarrow> (Raised err, c4)
         | (Returned img_path, c4) \<Rightarrow>
             (let sd = \<lparr>step_number = step c4, timestamp = now e,
                        step_type = ''click'',
                        content = py (''Click '' @ b @ '' at ('' @ str_int x @ '','' @ str_int y @ '')''),
                        application = get_active_window_title e,
                        screenshot = Some img_path,
                        coordinates = Some (x, y), button = Some b,
                        key_strs = None\<rparr>;
                  c5 = c4\<lparr>session := (session c4)\<lparr>steps := steps (session c4) @ [sd],
                           screenshots := screenshots (session c4) @ [img_path]\<rparr>\<rparr>;
                  c6 = upd_stats (\<lambda>s. s\<lparr>applications :=
                                     insert (application sd) (applications s)\<rparr>) c5
              in (Returned (), c6)))"

definition start_recording :: "listener_start \<Rightarrow> real \<Rightarrow> StepRecorderCore \<Rightarrow> bool outcome \<times> StepRecorderCore" where
  "start_recording ls t c =
     (if recording c then (Returned False, c)
      else
        (let c1 = c\<lparr>recording := True, paused := False, step := 0, start_time := Some t,
                    session := new_session\<lparr>session_start_time := Some t,
                                             statistics := empty_stats\<rparr>\<rparr>
         in case ls of
              MouseCtorFails \<Rightarrow> (Raised ListenerError, c1\<lparr>recording := False\<rparr>)
            | MouseStartFails \<Rightarrow>
                (Raised ListenerError, c1\<lparr>mouse_listener := True, recording := False\<rparr>)
            | KbCtorFails \<Rightarrow>
                (Raised ListenerError, c1\<lparr>mouse_listener := True, recording := False\<rparr>)
            | KbStartFails \<Rightarrow>
                (Raised ListenerError,
                 c1\<lparr>mouse_listener := True, kb_listener := True, recording := False\<rparr>)
            | ListenersOk \<Rightarrow>
                (Returned True,
                 c1\<lparr>mouse_listener := True, kb_listener := True, timer_running := True\<rparr>)))"

definition stop_recording :: "env \<Rightarrow> StepRecorderCore \<Rightarrow> bool outcome \<times> StepRecorderCore" where
  "stop_recording e c =
     (if \<not> recording c then (Returned False, c)
      else
        (case (if current_keystrokes c \<noteq> [] then record_keystroke_group e c
               else (Returned (), c)) of
           (Raised err, c1) \<Rightarrow> (Raised err, c1)
         | (Returned u, c1) \<Rightarrow>
             (let c2 = c1\<lparr>recording := False, paused := False,
                         session := (session c1)\<lparr>end_time := Some (now e)\<rparr>\<rparr>;
                  c3 = (case (session_start_time (session c2), end_time (session c2)) of
                          (Some st, Some en) \<Rightarrow>
                            upd_stats (\<lambda>s. s\<lparr>recording_duration := en - st\<rparr>) c2
                        | _ \<Rightarrow> c2)
              in (Returned True,
                  c3\<lparr>timer_running := False, mouse_listener := False,
                     kb_listener := False\<rparr>))))"

definition pause_recording :: "StepRecorderCore \<Rightarrow> bool outcome \<times> StepRecorderCore" where
  "pause_recording c =
     (if \<not> recording c then (Returned False, c)
      else (Returned True, c\<lparr>paused := True, timer_running := False\<rparr>))"

definition resume_recording :: "StepRecorderCore \<Rightarrow> bool outcome \<times> StepRecorderCore" where
  "resume_recording c =
     (if \<not> recording c then (Returned False, c)
      else (Returned True, c\<lparr>paused := False, timer_running := True\<rparr>))"

definition add_note :: "pystr \<Rightarrow> env \<Rightarrow> StepRecorderCore \<Rightarrow> bool outcome \<times> StepRecorderCore" where
  "add_note note_text e c =
     (if \<not> recording c then (Returned False, c)
      else
        (let c1 = c\<lparr>step := step c + 1\<rparr>;
             c2 = upd_stats (\<lambda>s. s\<lparr>total_steps := total_steps s + 1\<rparr>) c1;
             c3 = upd_stats (\<lambda>s. s\<lparr>notes := notes s + 1\<rparr>) c2;
             sd = \<lparr>step_number = step c3, timestamp = now e, step_type = ''note'',
                   content = note_text, application = get_active_window_title e,
                   screenshot = None, coordinates = None, button = None,
                   key_strs = None\<rparr>
         in (Returned True,
             c3\<lparr>session := (session c3)\<lparr>steps := steps (session c3) @ [sd]\<rparr>\<rparr>)))"

definition get_recording_duration :: "real \<Rightarrow> StepRecorderCore \<Rightarrow> real" where
  "get_recording_duration t c =
     (case start_time c of
        None \<Rightarrow> 0
      | Some st \<Rightarrow>
          if paused c then recording_duration (statistics (session c))
          else t - st)"

text \<open>
  \<open>_timer_loop\<close>: one clock reading per iteration of the loop; the list is the
  iterations observed so far. The loop leaves as soon as its condition fails.
\<close>

fun timer_loop :: "real list \<Rightarrow> StepRecorderCore \<Rightarrow> StepRecorderCore" where
  "timer_loop [] c = c"
| "timer_loop (t # ts) c =
     (if timer_running c \<and> recording c then
        timer_loop ts
          (if \<not> paused c
           then upd_stats (\<lambda>s. s\<lparr>recording_duration := get_recording_duration t c\<rparr>) c
           else c)
      else c)"

definition on_click :: "int \<Rightarrow> int \<Rightarrow> string \<Rightarrow> bool \<Rightarrow> env \<Rightarrow> StepRecorderCore \<Rightarrow> unit outcome \<times> StepRecorderCore" where
  "on_click x y b pressed e c =
     (if pressed \<and> recording c \<and> \<not> paused c then
        (case (if current_keystrokes c \<noteq> [] then record_keystroke_group e c
               else (Returned (), c)) of
           (Raised err, c1) \<Rightarrow> (Raised err, c1)
         | (Returned u, c1) \<Rightarrow>
             (Returned (), c1\<lparr>last_click := (x, y), queue := queue c1 @ [QClick x y b]\<rparr>))
      else (Returned (), c))"

definition on_key_release :: "key \<Rightarrow> env \<Rightarrow> StepRecorderCore \<Rightarrow> unit outcome \<times> StepRecorderCore" where
  "on_key_release k e c =
     (if \<not> recording c \<or> paused c then (Returned (), c)
      else
        (let current_time = now_ms e
         in case (if current_keystrokes c \<noteq> []
                     \<and> current_time - last_key_time c > key_grouping_delay c
                  then record_keystroke_group e c else (Returned (), c)) of
              (Raised err, c1) \<Rightarrow> (Raised err, c1)
            | (Returned u, c1) \<Rightarrow>
                (Returned (), c1\<lparr>current_keystrokes := current_keystrokes c1 @ [k],
                                  last_key_time := current_time\<rparr>)))"

lemma queue_upd_stats [simp]: "queue (upd_stats f c) = queue c"
  by (simp add: upd_stats_def)

lemma queue_record_click [simp]: "queue (snd (record_click x y b e c)) = queue c"
  by (simp add: record_click_def capture_and_highlight_def Let_def)

lemma record_click_queueD: "(r, c1) = record_click x y b e c \<Longrightarrow> queue c1 = queue c"
  by (metis queue_record_click snd_conv)

text \<open>
  \<open>process_queue\<close> drains the queue; the \<open>i\<close>-th item taken in this call
  is recorded under \<open>envs i\<close>. An exception of \<open>_record_click\<close> leaves the loop
  with the item already taken from the queue.
\<close>

function process_queue :: "(nat \<Rightarrow> env) \<Rightarrow> StepRecorderCore \<Rightarrow> unit outcome \<times> StepRecorderCore" where
  "process_queue envs c =
     (case queue c of
        [] \<Rightarrow> (Returned (), c)
      | item # rest \<Rightarrow>
          (case item of QClick x y b \<Rightarrow>
             (case record_click x y b (envs 0) (c\<lparr>queue := rest\<rparr>) of
                (Raised err, c1) \<Rightarrow> (Raised err, c1)
              | (Returned u, c1) \<Rightarrow> process_queue (\<lambda>i. envs (Suc i)) c1)))"
  by pat_completeness auto

termination
  apply (relation "measure (\<lambda>(envs, c). length (queue c))")
   apply simp
  apply (auto dest: record_click_queueD)
  done

declare process_queue.simps [simp del]

section \<open>Runs of the recorder\<close>

text \<open>
  The calls that reach the core: the public methods, the two listener callbacks, the
  draining of the queue by the host's event loop, and iterations of the timer loop.
  Each call runs as a whole; a call that raises leaves the state as it was when the
  exception left the core, and the next call goes on from there.
\<close>

datatype op =
    StartRecording listener_start real
  | StopRecording env
  | PauseRecording
  | ResumeRecording
  | AddNote pystr env
  | OnClick int int string bool env
  | OnKeyRelease key env
  | ProcessQueue "nat \<Rightarrow> env"
  | TimerLoop "real list"

definition raised :: "'a outcome \<Rightarrow> error option" where
  "raised r = (case r of Returned v \<Rightarrow> None | Raised err \<Rightarrow> Some err)"

fun perform :: "op \<Rightarrow> StepRecorderCore \<Rightarrow> error option \<times> StepRecorderCore" where
  "perform (StartRecording ls t) c = (let (r, c') = start_recording ls t c in (raised r, c'))"
| "perform (StopRecording e) c = (let (r, c') = stop_recording e c in (raised r, c'))"
| "perform PauseRecording c = (let (r, c') = pause_recording c in (raised r, c'))"
| "perform ResumeRecording c = (let (r, c') = resume_recording c in (raised r, c'))"
| "perform (AddNote txt e) c = (let (r, c') = add_note txt e c in (raised r, c'))"
| "perform (OnClick x y b pressed e) c =
     (let (r, c') = on_click x y b pressed e c in (raised r, c'))"
| "perform (OnKeyRelease k e) c = (let (r, c') = on_key_release k e c in (raised r, c'))"
| "perform (ProcessQueue envs) c = (let (r, c') = process_queue envs c in (raised r, c'))"
| "perform (TimerLoop ts) c = (None, timer_loop ts c)"

fun run :: "op list \<Rightarrow> StepRecorderCore \<Rightarrow> StepRecorderCore" where
  "run [] c = c"
| "run (a # as) c = run as (snd (perform a c))"

text \<open>Whether some call of the run raised out of a failed screenshot capture.\<close>

fun capture_failed :: "op list \<Rightarrow> StepRecorderCore \<Rightarrow> bool" where
  "capture_failed [] c = False"
| "capture_failed (a # as) c =
     (fst (perform a c) = Some CaptureError \<or> capture_failed as (snd (perform a c)))"

section \<open>What the statistics and the numbering are measured against\<close>

text \<open>
  The number of key events a step stands for: the length of its \<open>keystrokes\<close>
  list, and none for a click or a note.
\<close>

definition keys_in :: "step_data \<Rightarrow> int" where
  "keys_in sd = (case key_strs sd of Some ks \<Rightarrow> int (length ks) | None \<Rightarrow> 0)"

definition stats_agree :: "StepRecorderCore \<Rightarrow> bool" where
  "stats_agree c =
     (total_steps (statistics (session c)) = int (length (steps (session c)))
      \<and> clicks (statistics (session c))
          = int (length (filter (\<lambda>sd. step_type sd = ''click'') (steps (session c))))
      \<and> notes (statistics (session c))
          = int (length (filter (\<lambda>sd. step_type sd = ''note'') (steps (session c))))
      \<and> keystrokes (statistics (session c)) = sum_list (map keys_in (steps (session c))))"

definition numbered :: "StepRecorderCore \<Rightarrow> bool" where
  "numbered c =
     (step c = int (length (steps (session c)))
      \<and> map step_number (steps (session c)) = [1..int (length (steps (session c)))])"

definition sound :: "StepRecorderCore \<Rightarrow> bool" where
  "sound c = (stats_agree c \<and> numbered c)"

text \<open>
  The steps a later state has beyond an earlier one, and the relation that the later
  state has only appended steps, each numbered above the earlier counter and up to the
  later one.
\<close>

definition later_steps :: "StepRecorderCore \<Rightarrow> StepRecorderCore \<Rightarrow> step_data list" where
  "later_steps c c' = drop (length (steps (session c))) (steps (session c'))"

definition grows :: "StepRecorderCore \<Rightarrow> StepRecorderCore \<Rightarrow> bool" where
  "grows c c' =
     (step c \<le> step c'
      \<and> steps (session c') = steps (session c) @ later_steps c c'
      \<and> list_all (\<lambda>sd. step c < step_number sd \<and> step_number sd \<le> step c')
           (later_steps c c'))"

fun is_start :: "op \<Rightarrow> bool" where
  "is_start (StartRecording ls t) = True"
| "is_start a = False"

text \<open>
  The special keys the rendering claim names, by their \<open>str(key)\<close>: Enter, Tab,
  Backspace and the arrows.
\<close>

definition named_keys :: "string list" where
  "named_keys = [''Key.enter'', ''Key.tab'', ''Key.backspace'',
                 ''Key.up'', ''Key.down'', ''Key.left'', ''Key.right'']"

text \<open>Environments and keys for the concrete runs below.\<close>

definition latin1_printable :: "nat \<Rightarrow> bool" where
  "latin1_printable c = (161 \<le> c \<and> c < 256 \<and> c \<noteq> 173)"

definition at_time :: "real \<Rightarrow> env" where
  "at_time t = \<lparr>now = t, now_ms = t * 1000, window = None, capture_ok = True,
                 cwd = ''/tmp'', unicode_printable = latin1_printable\<rparr>"

definition failing_at :: "real \<Rightarrow> env" where
  "failing_at t = \<lparr>now = t, now_ms = t * 1000, window = None, capture_ok = False,
                    cwd = ''/tmp'', unicode_printable = latin1_printable\<rparr>"

definition char_key :: "char \<Rightarrow> key" where
  "char_key ch = Key (Some (of_char ch)) [CHR 0x27, ch, CHR 0x27]"

section \<open>Calls made while no recording is in progress\<close>

text \<open>
  C10. While \<open>recording\<close> is false, \<open>pause_recording\<close>, \<open>resume_recording\<close>,
  \<open>add_note\<close> and \<open>stop_recording\<close> each return \<open>False\<close> and leave the whole
  recorder state as it was, so the step counter, the step list and the statistics are
  the same before and after.
\<close>

theorem not_recording_calls_refused:
  assumes "\<not> recording c"
  shows "pause_recording c = (Returned False, c)
       \<and> resume_recording c = (Returned False, c)
       \<and> add_note note_text e c = (Returned False, c)
       \<and> stop_recording e c = (Returned False, c)"
  using assms
  by (simp add: pause_recording_def resume_recording_def add_note_def stop_recording_def)

theorem not_recording_calls_refused_witness:
  "\<not> recording init
   \<and> pause_recording init = (Returned False, init)
   \<and> resume_recording init = (Returned False, init)
   \<and> add_note (py ''hello'') (at_time 5) init
       = (Returned False, init)
   \<and> stop_recording (at_time 5) init
       = (Returned False, init)"
proof -
  have h: "\<not> recording init" by (simp add: init_def)
  show ?thesis
    using h not_recording_calls_refused [OF h, of "py ''hello''"
        "at_time 5"]
    by simp
qed

section \<open>Rendering a keystroke group\<close>

lemma ascii_safe:
  "text \<noteq> [] \<Longrightarrow> list_all (\<lambda>c. 32 \<le> c \<and> c < 127) text \<Longrightarrow> is_safe_for_xml up text"
  by (auto simp: is_safe_for_xml_def list_all_iff)

lemma text_parts_Nil: "text_parts up [] = []"
  by (simp add: text_parts_def)

lemma text_parts_Cons:
  "text_parts up (k # ks) =
     (if is_safe_for_xml up (key_to_name up k)
         \<and> key_to_name up k \<notin> set (map py [''Char(19)'', ''Ctrl_L'', ''Shift_L'', ''Alt_L''])
      then key_to_name up k # text_parts up ks else text_parts up ks)"
  by (simp add: text_parts_def)

lemma special_keys_Nil: "special_keys up [] = []"
  by (simp add: special_keys_def)

lemma special_keys_Cons:
  "special_keys up (k # ks) =
     (if key_to_name up k \<in> set (map py [''Enter'', ''Space'', ''Tab'', ''Backspace'',
                                             ''Delete'', ''Escape''])
      then key_to_name up k # special_keys up ks else special_keys up ks)"
  by (simp add: special_keys_def)

lemma space_name_kept:
  "is_safe_for_xml up (py ''Space'')
   \<and> py ''Space'' \<notin> set (map py [''Char(19)'', ''Ctrl_L'', ''Shift_L'', ''Alt_L''])"
proof -
  have a: "py ''Space'' \<noteq> []" by code_simp
  have b: "list_all (\<lambda>c. 32 \<le> c \<and> c < 127) (py ''Space'')" by code_simp
  have c: "py ''Space'' \<notin> set (map py [''Char(19)'', ''Ctrl_L'', ''Shift_L'', ''Alt_L''])"
    by code_simp
  show ?thesis using ascii_safe [OF a b] c by (rule conjI)
qed

lemma printable_name_kept:
  assumes "char k = Some c" "isprintable up c"
  shows "is_safe_for_xml up (key_to_name up k)
       \<and> key_to_name up k \<notin> set (map py [''Char(19)'', ''Ctrl_L'', ''Shift_L'', ''Alt_L''])"
proof (cases "c = 32")
  case True
  then have n: "key_to_name up k = py ''Space''" using assms by (simp add: key_to_name_def)
  show ?thesis unfolding n by (rule space_name_kept)
next
  case False
  then have n: "key_to_name up k = [c]" using assms by (simp add: key_to_name_def)
  have a: "is_safe_for_xml up [c]"
    using assms(2) by (auto simp: is_safe_for_xml_def isprintable_def split: if_splits)
  have b: "[c] \<notin> set (map py [''Char(19)'', ''Ctrl_L'', ''Shift_L'', ''Alt_L''])"
    by (simp add: py_def)
  show ?thesis unfolding n using a b by (rule conjI)
qed

lemma special_key_name:
  "char k = None \<Longrightarrow> key_to_name up k = key_to_name (\<lambda>c. False) (Key None (str k))"
  by (simp add: key_to_name_def)

lemma named_key_kept:
  assumes "char k = None" "str k \<in> set named_keys"
  shows "is_safe_for_xml up (key_to_name up k)
       \<and> key_to_name up k \<notin> set (map py [''Char(19)'', ''Ctrl_L'', ''Shift_L'', ''Alt_L''])"
proof -
  have q: "list_all (\<lambda>s. key_to_name (\<lambda>c. False) (Key None s) \<noteq> []
              \<and> list_all (\<lambda>c. 32 \<le> c \<and> c < 127) (key_to_name (\<lambda>c. False) (Key None s))
              \<and> key_to_name (\<lambda>c. False) (Key None s)
                   \<notin> set (map py [''Char(19)'', ''Ctrl_L'', ''Shift_L'', ''Alt_L'']))
            named_keys"
    by code_simp
  have "key_to_name (\<lambda>c. False) (Key None (str k)) \<noteq> []
              \<and> list_all (\<lambda>c. 32 \<le> c \<and> c < 127) (key_to_name (\<lambda>c. False) (Key None (str k)))
              \<and> key_to_name (\<lambda>c. False) (Key None (str k))
                   \<notin> set (map py [''Char(19)'', ''Ctrl_L'', ''Shift_L'', ''Alt_L''])"
    using q assms(2) unfolding list_all_iff by (rule bspec)
  then have "key_to_name up k \<noteq> []"
      "list_all (\<lambda>c. 32 \<le> c \<and> c < 127) (key_to_name up k)"
      "key_to_name up k \<notin> set (map py [''Char(19)'', ''Ctrl_L'', ''Shift_L'', ''Alt_L''])"
    unfolding special_key_name [OF assms(1), of up] by (rule conjunct1, rule conjunct2 [THEN conjunct1], rule conjunct2 [THEN conjunct2])
  then show ?thesis using ascii_safe by (intro conjI)
qed

lemma text_parts_typed:
  "list_all (\<lambda>k. case char k of Some c \<Rightarrow> isprintable up c | None \<Rightarrow> str k \<in> set named_keys) ks
   \<Longrightarrow> text_parts up ks = map (key_to_name up) ks"
proof (induction ks)
  case Nil
  then show ?case by (simp add: text_parts_Nil)
next
  case (Cons k ks)
  have kept: "is_safe_for_xml up (key_to_name up k)
       \<and> key_to_name up k \<notin> set (map py [''Char(19)'', ''Ctrl_L'', ''Shift_L'', ''Alt_L''])"
  proof (cases "char k")
    case None
    then have "str k \<in> set named_keys" using Cons.prems by simp
    then show ?thesis using named_key_kept [OF None] by simp
  next
    case (Some c)
    then have "isprintable up c" using Cons.prems by simp
    then show ?thesis using printable_name_kept [OF Some] by simp
  qed
  have "text_parts up (k # ks) = key_to_name up k # text_parts up ks"
    by (simp only: text_parts_Cons kept if_True simp_thms)
  moreover have "text_parts up ks = map (key_to_name up) ks"
    using Cons by simp
  ultimately show ?case by simp
qed

lemma ctrl_s_name: "char k = Some 19 \<Longrightarrow> key_to_name up k = py ''Char(19)''"
proof -
  assume c: "char k = Some 19"
  have s: "str_nat 19 = ''19''" by code_simp
  have "key_to_name up k = py (''Char('' @ str_nat 19 @ '')'')"
    using c by (simp add: key_to_name_def isprintable_def)
  then show ?thesis unfolding s by simp
qed

lemma ctrl_s_group:
  "list_all (\<lambda>k. char k = Some 19) qs \<Longrightarrow> text_parts up qs = [] \<and> special_keys up qs = []"
proof (induction qs)
  case Nil
  then show ?case by (simp add: text_parts_Nil special_keys_Nil)
next
  case (Cons k qs)
  have n: "key_to_name up k = py ''Char(19)''" using Cons.prems ctrl_s_name by simp
  have a: "py ''Char(19)'' \<in> set (map py [''Char(19)'', ''Ctrl_L'', ''Shift_L'', ''Alt_L''])"
    by code_simp
  have b: "py ''Char(19)'' \<notin> set (map py [''Enter'', ''Space'', ''Tab'', ''Backspace'',
                                             ''Delete'', ''Escape''])"
    by code_simp
  have "text_parts up (k # qs) = text_parts up qs"
    by (simp only: text_parts_Cons n a simp_thms if_False)
  moreover have "special_keys up (k # qs) = special_keys up qs"
    by (simp only: special_keys_Cons n b simp_thms if_False)
  ultimately show ?case using Cons by simp
qed

text \<open>
  The names \<open>Enter\<close>, \<open>Space\<close>, \<open>Tab\<close>, \<open>Backspace\<close>, \<open>Delete\<close> and
  \<open>Escape\<close> pass the filter of the first loop, so a group with such a key has a
  non-empty \<open>text_parts\<close>: the branch that returns \<open>Pressed: ...\<close> is never taken.
\<close>

lemma special_names_pass:
  assumes "n \<in> set (map py [''Enter'', ''Space'', ''Tab'', ''Backspace'', ''Delete'', ''Escape''])"
  shows "is_safe_for_xml up n
       \<and> n \<notin> set (map py [''Char(19)'', ''Ctrl_L'', ''Shift_L'', ''Alt_L''])"
proof -
  have q: "list_all (\<lambda>n. n \<noteq> [] \<and> list_all (\<lambda>c. 32 \<le> c \<and> c < 127) n
              \<and> n \<notin> set (map py [''Char(19)'', ''Ctrl_L'', ''Shift_L'', ''Alt_L'']))
            (map py [''Enter'', ''Space'', ''Tab'', ''Backspace'', ''Delete'', ''Escape''])"
    by code_simp
  have "n \<noteq> [] \<and> list_all (\<lambda>c. 32 \<le> c \<and> c < 127) n
              \<and> n \<notin> set (map py [''Char(19)'', ''Ctrl_L'', ''Shift_L'', ''Alt_L''])"
    using q assms unfolding list_all_iff by (rule bspec)
  then show ?thesis using ascii_safe by (intro conjI) simp_all
qed

lemma pressed_branch_unreachable:
  "text_parts up ks = [] \<Longrightarrow> special_keys up ks = []"
proof (induction ks)
  case Nil
  then show ?case by (simp add: special_keys_Nil)
next
  case (Cons k ks)
  show ?case
  proof (cases "key_to_name up k \<in> set (map py [''Enter'', ''Space'', ''Tab'', ''Backspace'',
                                             ''Delete'', ''Escape''])")
    case True
    have "text_parts up (k # ks) = key_to_name up k # text_parts up ks"
      by (simp only: text_parts_Cons special_names_pass [OF True] if_True simp_thms)
    then show ?thesis using Cons.prems by simp
  next
    case False
    have t: "text_parts up ks = []"
      using Cons.prems unfolding text_parts_Cons by (simp split: if_splits)
    have "special_keys up (k # ks) = special_keys up ks"
      by (simp only: special_keys_Cons False if_False)
    then show ?thesis using Cons.IH [OF t] by simp
  qed
qed

text \<open>
  C8, as stated, fails on the space key: \<open>_key_to_name\<close> names it by the token
  \<open>Space\<close>, not by a space character. The keys h, i, space, x are rendered as
  \<open>hiSpacex\<close>.
\<close>

theorem space_key_counterexample:
  "keystrokes_to_text latin1_printable [char_key CHR '' ''] = py ''Space''
   \<and> keystrokes_to_text latin1_printable [char_key CHR '' ''] \<noteq> py '' ''
   \<and> keystrokes_to_text latin1_printable
         [char_key CHR ''h'', char_key CHR ''i'', char_key CHR '' '', char_key CHR ''x'']
       = py ''hiSpacex''"
  by code_simp

text \<open>
  C8, amended. Whatever the Unicode table: a printable character key other than space
  is named by its character, the space key by the token \<open>Space\<close>, and Enter, Tab,
  Backspace and the four arrows by their entries of the lookup table. A group that
  holds at least one character key, and in which every character key is printable and
  every other key is one of these seven named keys, is rendered as the concatenation of
  the names of its keys, in order. A group made of the control character 19 only is
  rendered as \<open>Special keys pressed\<close>. Groups of named keys only are left out.
\<close>

theorem key_rendering:
  "(isprintable up ch \<and> ch \<noteq> 32 \<longrightarrow> key_to_name up (Key (Some ch) s) = [ch])
   \<and> key_to_name up (Key (Some 32) s) = py ''Space''
   \<and> key_to_name up (Key None ''Key.enter'') = py ''Enter''
   \<and> key_to_name up (Key None ''Key.tab'') = py ''Tab''
   \<and> key_to_name up (Key None ''Key.backspace'') = py ''Backspace''
   \<and> key_to_name up (Key None ''Key.up'') = py ''Up Arrow''
   \<and> key_to_name up (Key None ''Key.down'') = py ''Down Arrow''
   \<and> key_to_name up (Key None ''Key.left'') = py ''Left Arrow''
   \<and> key_to_name up (Key None ''Key.right'') = py ''Right Arrow''
   \<and> (list_all (\<lambda>k. case char k of Some c \<Rightarrow> isprintable up c
                                   | None \<Rightarrow> str k \<in> set named_keys) ks
        \<and> list_ex (\<lambda>k. char k \<noteq> None) ks
        \<longrightarrow> keystrokes_to_text up ks = concat (map (key_to_name up) ks))
   \<and> (list_all (\<lambda>k. char k = Some 19) qs
        \<longrightarrow> keystrokes_to_text up qs = py ''Special keys pressed'')"
proof -
  have a: "isprintable up ch \<and> ch \<noteq> 32 \<longrightarrow> key_to_name up (Key (Some ch) s) = [ch]"
    by (simp add: key_to_name_def)
  have b: "key_to_name up (Key (Some 32) s) = py ''Space''"
    by (simp add: key_to_name_def)
  have sp: "\<And>t. key_to_name up (Key None t) = key_to_name (\<lambda>c. False) (Key None t)"
    using special_key_name [of "Key None t" up for t] by simp
  have c1: "key_to_name up (Key None ''Key.enter'') = py ''Enter''"
    unfolding sp by code_simp
  have c2: "key_to_name up (Key None ''Key.tab'') = py ''Tab''"
    unfolding sp by code_simp
  have c3: "key_to_name up (Key None ''Key.backspace'') = py ''Backspace''"
    unfolding sp by code_simp
  have c4: "key_to_name up (Key None ''Key.up'') = py ''Up Arrow''"
    unfolding sp by code_simp
  have c5: "key_to_name up (Key None ''Key.down'') = py ''Down Arrow''"
    unfolding sp by code_simp
  have c6: "key_to_name up (Key None ''Key.left'') = py ''Left Arrow''"
    unfolding sp by code_simp
  have c7: "key_to_name up (Key None ''Key.right'') = py ''Right Arrow''"
    unfolding sp by code_simp
  have d: "keystrokes_to_text up ks = concat (map (key_to_name up) ks)"
    if h: "list_all (\<lambda>k. case char k of Some c \<Rightarrow> isprintable up c
                                   | None \<Rightarrow> str k \<in> set named_keys) ks
        \<and> list_ex (\<lambda>k. char k \<noteq> None) ks"
  proof -
    have t: "text_parts up ks = map (key_to_name up) ks"
      using h text_parts_typed by blast
    have "ks \<noteq> []" using h by auto
    then have "text_parts up ks \<noteq> []" using t by simp
    then show ?thesis unfolding keystrokes_to_text_def using t by simp
  qed
  have e: "keystrokes_to_text up qs = py ''Special keys pressed''"
    if h: "list_all (\<lambda>k. char k = Some 19) qs"
    using ctrl_s_group [OF h, of up] unfolding keystrokes_to_text_def by simp
  have d': "list_all (\<lambda>k. case char k of Some c \<Rightarrow> isprintable up c
                                   | None \<Rightarrow> str k \<in> set named_keys) ks
        \<and> list_ex (\<lambda>k. char k \<noteq> None) ks
        \<longrightarrow> keystrokes_to_text up ks = concat (map (key_to_name up) ks)"
    using d by (rule impI)
  have e': "list_all (\<lambda>k. char k = Some 19) qs
        \<longrightarrow> keystrokes_to_text up qs = py ''Special keys pressed''"
    using e by (rule impI)
  show ?thesis
    by (intro conjI) (rule a b c1 c2 c3 c4 c5 c6 c7 d' e')+
qed

theorem key_rendering_witness:
  "isprintable latin1_printable 233 \<and> (233::nat) \<noteq> 32
   \<and> key_to_name latin1_printable (Key (Some 233) ''x'') = [233]
   \<and> list_all (\<lambda>k. case char k of Some c \<Rightarrow> isprintable latin1_printable c
                                  | None \<Rightarrow> str k \<in> set named_keys)
        [char_key CHR ''a'', Key None ''Key.enter'', char_key CHR '' '', Key (Some 233) ''x'']
   \<and> list_ex (\<lambda>k. char k \<noteq> None)
        [char_key CHR ''a'', Key None ''Key.enter'', char_key CHR '' '', Key (Some 233) ''x'']
   \<and> keystrokes_to_text latin1_printable
        [char_key CHR ''a'', Key None ''Key.enter'', char_key CHR '' '', Key (Some 233) ''x'']
       = py ''aEnterSpace'' @ [233]
   \<and> list_all (\<lambda>k. char k = Some 19) [Key (Some 19) ''x'', Key (Some 19) ''y'']
   \<and> keystrokes_to_text latin1_printable [Key (Some 19) ''x'', Key (Some 19) ''y'']
       = py ''Special keys pressed''"
proof -
  let ?ks = "[char_key CHR ''a'', Key None ''Key.enter'', char_key CHR '' '',
              Key (Some 233) ''x'']"
  let ?qs = "[Key (Some 19) ''x'', Key (Some 19) ''y'']"
  note T = key_rendering [of latin1_printable 233 "''x''" ?ks ?qs]
  have h1: "isprintable latin1_printable 233 \<and> (233::nat) \<noteq> 32" by code_simp
  have h2: "list_all (\<lambda>k. case char k of Some c \<Rightarrow> isprintable latin1_printable c
                                  | None \<Rightarrow> str k \<in> set named_keys) ?ks
            \<and> list_ex (\<lambda>k. char k \<noteq> None) ?ks"
    by code_simp
  have h3: "list_all (\<lambda>k. char k = Some 19) ?qs" by code_simp
  have v: "concat (map (key_to_name latin1_printable) ?ks) = py ''aEnterSpace'' @ [233]"
    by code_simp
  have r1: "key_to_name latin1_printable (Key (Some 233) ''x'') = [233]"
    using T [THEN conjunct1] h1 by (rule mp)
  have "keystrokes_to_text latin1_printable ?ks = concat (map (key_to_name latin1_printable) ?ks)"
    using T [THEN conjunct2, THEN conjunct2, THEN conjunct2, THEN conjunct2, THEN conjunct2,
             THEN conjunct2, THEN conjunct2, THEN conjunct2, THEN conjunct2, THEN conjunct1] h2
    by (rule mp)
  then have r2: "keystrokes_to_text latin1_printable ?ks = py ''aEnterSpace'' @ [233]"
    using v by (rule trans)
  have r3: "keystrokes_to_text latin1_printable ?qs = py ''Special keys pressed''"
    using T [THEN conjunct2, THEN conjunct2, THEN conjunct2, THEN conjunct2, THEN conjunct2,
             THEN conjunct2, THEN conjunct2, THEN conjunct2, THEN conjunct2, THEN conjunct2] h3
    by (rule mp)
  show ?thesis
    by (intro conjI)
      (rule h1 [THEN conjunct1] h1 [THEN conjunct2] r1 h2 [THEN conjunct1]
         h2 [THEN conjunct2] r2 h3 r3)+
qed

section \<open>Effects of the recording steps\<close>

lemma record_click_ok:
  assumes "capture_ok e"
  shows "\<exists>sd c'. record_click x y b e c = (Returned (), c')
      \<and> steps (session c') = steps (session c) @ [sd]
      \<and> step_number sd = step c + 1 \<and> step_type sd = ''click''
      \<and> key_strs sd = None \<and> coordinates sd = Some (x, y) \<and> screenshot sd \<noteq> None
      \<and> step c' = step c + 1
      \<and> total_steps (statistics (session c')) = total_steps (statistics (session c)) + 1
      \<and> clicks (statistics (session c')) = clicks (statistics (session c)) + 1
      \<and> notes (statistics (session c')) = notes (statistics (session c))
      \<and> keystrokes (statistics (session c')) = keystrokes (statistics (session c))
      \<and> current_keystrokes c' = current_keystrokes c
      \<and> queue c' = queue c \<and> recording c' = recording c \<and> paused c' = paused c"
  using assms
  by (simp add: record_click_def capture_and_highlight_def upd_stats_def Let_def)

lemma record_click_fail:
  assumes "\<not> capture_ok e"
  shows "\<exists>c'. record_click x y b e c = (Raised CaptureError, c')
      \<and> steps (session c') = steps (session c)
      \<and> step c' = step c + 1
      \<and> total_steps (statistics (session c')) = total_steps (statistics (session c)) + 1
      \<and> clicks (statistics (session c')) = clicks (statistics (session c)) + 1
      \<and> current_keystrokes c' = current_keystrokes c
      \<and> queue c' = queue c \<and> recording c' = recording c \<and> paused c' = paused c"
  using assms
  by (simp add: record_click_def capture_and_highlight_def upd_stats_def Let_def)

lemma record_keystroke_group_ok:
  assumes "capture_ok e" "current_keystrokes c \<noteq> []"
  shows "\<exists>sd c'. record_keystroke_group e c = (Returned (), c')
      \<and> steps (session c') = steps (session c) @ [sd]
      \<and> step_number sd = step c + 1 \<and> step_type sd = ''keystroke''
      \<and> key_strs sd = Some (map str (current_keystrokes c))
      \<and> content sd = keystrokes_to_text (unicode_printable e) (current_keystrokes c)
      \<and> step c' = step c + 1
      \<and> total_steps (statistics (session c')) = total_steps (statistics (session c)) + 1
      \<and> clicks (statistics (session c')) = clicks (statistics (session c))
      \<and> notes (statistics (session c')) = notes (statistics (session c))
      \<and> keystrokes (statistics (session c'))
          = keystrokes (statistics (session c)) + int (length (current_keystrokes c))
      \<and> current_keystrokes c' = []
      \<and> queue c' = queue c \<and> recording c' = recording c \<and> paused c' = paused c"
  using assms
  by (simp add: record_keystroke_group_def capture_and_highlight_def upd_stats_def Let_def)

lemma record_keystroke_group_fail:
  assumes "\<not> capture_ok e" "current_keystrokes c \<noteq> []"
  shows "\<exists>c'. record_keystroke_group e c = (Raised CaptureError, c')
      \<and> steps (session c') = steps (session c)
      \<and> step c' = step c + 1
      \<and> current_keystrokes c' = current_keystrokes c
      \<and> queue c' = queue c \<and> recording c' = recording c \<and> paused c' = paused c"
  using assms
  by (simp add: record_keystroke_group_def capture_and_highlight_def upd_stats_def Let_def)

lemma process_queue_Nil: "queue c = [] \<Longrightarrow> process_queue envs c = (Returned (), c)"
  by (simp add: process_queue.simps)

lemma process_queue_ok:
  assumes "queue c = QClick x y b # rest" "capture_ok (envs 0)"
  shows "process_queue envs c
       = process_queue (\<lambda>i. envs (Suc i)) (snd (record_click x y b (envs 0) (c\<lparr>queue := rest\<rparr>)))"
proof -
  obtain sd c' where "record_click x y b (envs 0) (c\<lparr>queue := rest\<rparr>) = (Returned (), c')"
    using record_click_ok [OF assms(2)] by blast
  then show ?thesis using assms(1) by (simp add: process_queue.simps [of envs c])
qed

lemma process_queue_fail:
  assumes "queue c = QClick x y b # rest" "\<not> capture_ok (envs 0)"
  shows "process_queue envs c
       = (Raised CaptureError, snd (record_click x y b (envs 0) (c\<lparr>queue := rest\<rparr>)))"
proof -
  obtain c' where "record_click x y b (envs 0) (c\<lparr>queue := rest\<rparr>) = (Raised CaptureError, c')"
    using record_click_fail [OF assms(2)] by blast
  then show ?thesis using assms(1) by (simp add: process_queue.simps [of envs c])
qed

lemma process_queue_keeps:
  assumes upd: "\<And>c q. P c \<Longrightarrow> P (c\<lparr>queue := q\<rparr>)"
    and rc: "\<And>x y b e c. P c \<Longrightarrow> capture_ok e \<Longrightarrow> P (snd (record_click x y b e c))"
  shows "P c \<Longrightarrow> fst (process_queue envs c) \<noteq> Raised CaptureError
         \<Longrightarrow> P (snd (process_queue envs c))"
proof (induction "queue c" arbitrary: envs c)
  case Nil
  then show ?case by (simp add: process_queue_Nil)
next
  case (Cons item rest)
  obtain x y b where item: "item = QClick x y b" by (cases item)
  have q: "queue c = QClick x y b # rest" using Cons.hyps(2) item by simp
  show ?case
  proof (cases "capture_ok (envs 0)")
    case True
    let ?c1 = "snd (record_click x y b (envs 0) (c\<lparr>queue := rest\<rparr>))"
    have step: "process_queue envs c = process_queue (\<lambda>i. envs (Suc i)) ?c1"
      using process_queue_ok [of c x y b rest envs] q True by simp
    have "rest = queue ?c1" by simp
    moreover have "P ?c1" using rc [OF upd [OF Cons.prems(1)] True] .
    moreover have "fst (process_queue (\<lambda>i. envs (Suc i)) ?c1) \<noteq> Raised CaptureError"
      using Cons.prems(2) step by simp
    ultimately have "P (snd (process_queue (\<lambda>i. envs (Suc i)) ?c1))"
      using Cons.hyps(1) by blast
    then show ?thesis using step by simp
  next
    case False
    then show ?thesis using Cons.prems(2) process_queue_fail [of c x y b rest envs] q False by simp
  qed
qed

section \<open>Invariants of runs without a failed capture\<close>

lemma upto_snoc: "[1..1 + int n] = [1..int n] @ [int n + 1]"
  using upto_rec2 [of 1 "1 + int n"] by (simp add: add.commute)

lemma sound_queue_upd: "sound c \<Longrightarrow> sound (c\<lparr>queue := q\<rparr>)"
  by (simp add: sound_def stats_agree_def numbered_def)

lemma sound_record_click:
  assumes "sound c" "capture_ok e"
  shows "sound (snd (record_click x y b e c))"
proof -
  obtain sd c' where r: "record_click x y b e c = (Returned (), c')"
      "steps (session c') = steps (session c) @ [sd]"
      "step_number sd = step c + 1" "step_type sd = ''click''" "key_strs sd = None"
      "step c' = step c + 1"
      "total_steps (statistics (session c')) = total_steps (statistics (session c)) + 1"
      "clicks (statistics (session c')) = clicks (statistics (session c)) + 1"
      "notes (statistics (session c')) = notes (statistics (session c))"
      "keystrokes (statistics (session c')) = keystrokes (statistics (session c))"
    using record_click_ok [OF assms(2), of x y b c] by blast
  have "stats_agree c'"
    using assms(1) r by (simp add: sound_def stats_agree_def keys_in_def)
  moreover have "numbered c'"
    using assms(1) r by (simp add: sound_def numbered_def upto_snoc)
  ultimately show ?thesis using r(1) by (simp add: sound_def)
qed

lemma sound_record_keystroke_group:
  assumes "sound c" "fst (record_keystroke_group e c) \<noteq> Raised CaptureError"
  shows "sound (snd (record_keystroke_group e c))"
proof (cases "current_keystrokes c = []")
  case True
  then show ?thesis using assms(1) by (simp add: record_keystroke_group_def)
next
  case False
  have ok: "capture_ok e"
    using assms(2) record_keystroke_group_fail [OF _ False, of e] by fastforce
  obtain sd c' where r: "record_keystroke_group e c = (Returned (), c')"
      "steps (session c') = steps (session c) @ [sd]"
      "step_number sd = step c + 1" "step_type sd = ''keystroke''"
      "key_strs sd = Some (map str (current_keystrokes c))"
      "step c' = step c + 1"
      "total_steps (statistics (session c')) = total_steps (statistics (session c)) + 1"
      "clicks (statistics (session c')) = clicks (statistics (session c))"
      "notes (statistics (session c')) = notes (statistics (session c))"
      "keystrokes (statistics (session c'))
          = keystrokes (statistics (session c)) + int (length (current_keystrokes c))"
    using record_keystroke_group_ok [OF ok False] by blast
  have "stats_agree c'"
    using assms(1) r by (simp add: sound_def stats_agree_def keys_in_def)
  moreover have "numbered c'"
    using assms(1) r by (simp add: sound_def numbered_def upto_snoc)
  ultimately show ?thesis using r(1) by (simp add: sound_def)
qed

lemma sound_add_note: "sound c \<Longrightarrow> sound (snd (add_note txt e c))"
  by (simp add: add_note_def sound_def stats_agree_def numbered_def upd_stats_def Let_def
      keys_in_def upto_snoc)

lemma sound_start_recording: "sound c \<Longrightarrow> sound (snd (start_recording ls t c))"
  by (cases ls)
    (simp_all add: start_recording_def sound_def stats_agree_def numbered_def Let_def
      new_session_def empty_stats_def)

lemma sound_pause: "sound c \<Longrightarrow> sound (snd (pause_recording c))"
  by (simp add: pause_recording_def sound_def stats_agree_def numbered_def)

lemma sound_resume: "sound c \<Longrightarrow> sound (snd (resume_recording c))"
  by (simp add: resume_recording_def sound_def stats_agree_def numbered_def)

lemma sound_timer_loop: "sound c \<Longrightarrow> sound (timer_loop ts c)"
proof (induction ts arbitrary: c)
  case Nil
  then show ?case by simp
next
  case (Cons t ts)
  have "sound (upd_stats (\<lambda>s. s\<lparr>recording_duration := get_recording_duration t c\<rparr>) c)"
    using Cons.prems by (simp add: sound_def stats_agree_def numbered_def upd_stats_def)
  then show ?case using Cons by simp
qed

lemma sound_stop_recording:
  assumes "sound c" "fst (stop_recording e c) \<noteq> Raised CaptureError"
  shows "sound (snd (stop_recording e c))"
proof (cases "recording c \<and> current_keystrokes c \<noteq> []")
  case False
  then show ?thesis using assms(1)
    by (auto simp: stop_recording_def sound_def stats_agree_def numbered_def upd_stats_def
        Let_def split: option.splits)
next
  case True
  obtain r c1 where rk: "record_keystroke_group e c = (r, c1)" by fastforce
  have nr: "r \<noteq> Raised CaptureError"
    using assms(2) True rk by (auto simp: stop_recording_def split: outcome.splits)
  then have s1: "sound c1"
    using sound_record_keystroke_group [OF assms(1), of e] rk by simp
  show ?thesis
  proof (cases r)
    case (Returned u)
    then show ?thesis using s1 True rk
      by (auto simp: stop_recording_def sound_def stats_agree_def numbered_def upd_stats_def
          Let_def split: option.splits)
  next
    case (Raised err)
    then show ?thesis using s1 True rk by (simp add: stop_recording_def)
  qed
qed

lemma sound_on_click:
  assumes "sound c" "fst (on_click x y b pressed e c) \<noteq> Raised CaptureError"
  shows "sound (snd (on_click x y b pressed e c))"
proof (cases "pressed \<and> recording c \<and> \<not> paused c \<and> current_keystrokes c \<noteq> []")
  case False
  then show ?thesis using assms(1)
    by (auto simp: on_click_def sound_def stats_agree_def numbered_def)
next
  case True
  obtain r c1 where rk: "record_keystroke_group e c = (r, c1)" by fastforce
  have nr: "r \<noteq> Raised CaptureError"
    using assms(2) True rk by (auto simp: on_click_def split: outcome.splits)
  then have s1: "sound c1"
    using sound_record_keystroke_group [OF assms(1), of e] rk by simp
  show ?thesis
  proof (cases r)
    case (Returned u)
    then show ?thesis using s1 True rk
      by (auto simp: on_click_def sound_def stats_agree_def numbered_def)
  next
    case (Raised err)
    then show ?thesis using s1 True rk by (simp add: on_click_def)
  qed
qed

lemma sound_on_key_release:
  assumes "sound c" "fst (on_key_release k e c) \<noteq> Raised CaptureError"
  shows "sound (snd (on_key_release k e c))"
proof (cases "recording c \<and> \<not> paused c \<and> current_keystrokes c \<noteq> []
              \<and> now_ms e - last_key_time c > key_grouping_delay c")
  case False
  then show ?thesis using assms(1)
    by (auto simp: on_key_release_def sound_def stats_agree_def numbered_def Let_def)
next
  case True
  obtain r c1 where rk: "record_keystroke_group e c = (r, c1)" by fastforce
  have nr: "r \<noteq> Raised CaptureError"
    using assms(2) True rk by (auto simp: on_key_release_def Let_def split: outcome.splits)
  then have s1: "sound c1"
    using sound_record_keystroke_group [OF assms(1), of e] rk by simp
  show ?thesis
  proof (cases r)
    case (Returned u)
    then show ?thesis using s1 True rk
      by (auto simp: on_key_release_def Let_def sound_def stats_agree_def numbered_def)
  next
    case (Raised err)
    then show ?thesis using s1 True rk by (simp add: on_key_release_def Let_def)
  qed
qed

lemma raised_capture: "(raised r = Some CaptureError) = (r = Raised CaptureError)"
  by (cases r) (auto simp: raised_def)

lemma sound_process_queue:
  assumes "sound c" "fst (process_queue envs c) \<noteq> Raised CaptureError"
  shows "sound (snd (process_queue envs c))"
  using process_queue_keeps [of sound c envs] sound_queue_upd sound_record_click assms
  by blast

lemma sound_perform:
  assumes "sound c" "fst (perform a c) \<noteq> Some CaptureError"
  shows "sound (snd (perform a c))"
proof (cases a)
  case (StartRecording ls t)
  then show ?thesis using assms sound_start_recording [of c ls t]
    by (simp add: case_prod_beta)
next
  case (StopRecording e)
  then show ?thesis using assms sound_stop_recording [of c e]
    by (simp add: case_prod_beta raised_capture)
next
  case PauseRecording
  then show ?thesis using assms sound_pause [of c] by (simp add: case_prod_beta)
next
  case ResumeRecording
  then show ?thesis using assms sound_resume [of c] by (simp add: case_prod_beta)
next
  case (AddNote tx e)
  then show ?thesis using assms sound_add_note [of c tx e] by (simp add: case_prod_beta)
next
  case (OnClick x y b pressed e)
  then show ?thesis using assms sound_on_click [of c x y b pressed e]
    by (simp add: case_prod_beta raised_capture)
next
  case (OnKeyRelease k e)
  then show ?thesis using assms sound_on_key_release [of c k e]
    by (simp add: case_prod_beta raised_capture)
next
  case (ProcessQueue envs)
  then show ?thesis using assms sound_process_queue [of c envs]
    by (simp add: case_prod_beta raised_capture)
next
  case (TimerLoop ts)
  then show ?thesis using assms sound_timer_loop [of c ts] by simp
qed

lemma sound_run: "sound c \<Longrightarrow> \<not> capture_failed as c \<Longrightarrow> sound (run as c)"
proof (induction as arbitrary: c)
  case Nil
  then show ?case by simp
next
  case (Cons a as)
  then show ?case using sound_perform [of c a] by simp
qed

lemma sound_init: "sound init"
  by (simp add: sound_def stats_agree_def numbered_def init_def new_session_def empty_stats_def)

text \<open>
  C9, amended. After every run from the initial state in which no call raised out of a
  failed capture, \<open>total_steps\<close> is the length of the step list, \<open>clicks\<close> the
  number of click steps, \<open>notes\<close> the number of note steps, and \<open>keystrokes\<close>
  the number of key events over all keystroke steps (not the number of groups).
\<close>

theorem statistics_agree_with_steps:
  assumes "\<not> capture_failed as init"
  shows "total_steps (statistics (session (run as init)))
           = int (length (steps (session (run as init))))
       \<and> clicks (statistics (session (run as init)))
           = int (length (filter (\<lambda>sd. step_type sd = ''click'') (steps (session (run as init)))))
       \<and> notes (statistics (session (run as init)))
           = int (length (filter (\<lambda>sd. step_type sd = ''note'') (steps (session (run as init)))))
       \<and> keystrokes (statistics (session (run as init)))
           = sum_list (map keys_in (steps (session (run as init))))"
  using sound_run [OF sound_init assms] by (simp add: sound_def stats_agree_def)

section \<open>The step list only grows, with increasing numbers\<close>

lemma growsI:
  assumes "steps (session c') = steps (session c) @ new" "step c \<le> step c'"
    "list_all (\<lambda>sd. step c < step_number sd \<and> step_number sd \<le> step c') new"
  shows "grows c c'"
  using assms by (simp add: grows_def later_steps_def)

lemma grows_same:
  "steps (session c') = steps (session c) \<Longrightarrow> step c \<le> step c' \<Longrightarrow> grows c c'"
  using growsI [of c' c "[]"] by simp

lemma grows_trans:
  assumes "grows a b" "grows b c"
  shows "grows a c"
proof -
  let ?n1 = "later_steps a b" and ?n2 = "later_steps b c"
  have s: "steps (session c) = steps (session a) @ (?n1 @ ?n2)"
    using assms by (simp add: grows_def)
  have le: "step a \<le> step b" "step b \<le> step c" using assms by (simp_all add: grows_def)
  have l1: "list_all (\<lambda>sd. step a < step_number sd \<and> step_number sd \<le> step c) ?n1"
    using assms(1) le by (auto simp: grows_def list_all_iff)
  have l2: "list_all (\<lambda>sd. step a < step_number sd \<and> step_number sd \<le> step c) ?n2"
    using assms(2) le by (auto simp: grows_def list_all_iff)
  show ?thesis using growsI [OF s] le l1 l2 by simp
qed

lemma grows_record_click: "grows c (snd (record_click x y b e c))"
proof (cases "capture_ok e")
  case True
  obtain sd c' where r: "record_click x y b e c = (Returned (), c')"
      "steps (session c') = steps (session c) @ [sd]"
      "step_number sd = step c + 1" "step c' = step c + 1"
    using record_click_ok [OF True, of x y b c] by blast
  show ?thesis using growsI [OF r(2)] r by simp
next
  case False
  obtain c' where r: "record_click x y b e c = (Raised CaptureError, c')"
      "steps (session c') = steps (session c)" "step c' = step c + 1"
    using record_click_fail [OF False, of x y b c] by blast
  show ?thesis using grows_same [OF r(2)] r by simp
qed

lemma grows_record_keystroke_group: "grows c (snd (record_keystroke_group e c))"
proof (cases "current_keystrokes c = []")
  case True
  then show ?thesis using grows_same [of c c] by (simp add: record_keystroke_group_def)
next
  case ne: False
  show ?thesis
  proof (cases "capture_ok e")
    case True
    obtain sd c' where r: "record_keystroke_group e c = (Returned (), c')"
        "steps (session c') = steps (session c) @ [sd]"
        "step_number sd = step c + 1" "step c' = step c + 1"
      using record_keystroke_group_ok [OF True ne] by blast
    show ?thesis using growsI [OF r(2)] r by simp
  next
    case False
    obtain c' where r: "record_keystroke_group e c = (Raised CaptureError, c')"
        "steps (session c') = steps (session c)" "step c' = step c + 1"
      using record_keystroke_group_fail [OF False ne] by blast
    show ?thesis using grows_same [OF r(2)] r by simp
  qed
qed

lemma grows_frame:
  assumes "grows c c1" "steps (session c2) = steps (session c1)" "step c2 = step c1"
  shows "grows c c2"
  using assms by (simp add: grows_def later_steps_def)

lemma grows_add_note: "grows c (snd (add_note tx e c))"
proof (cases "recording c")
  case False
  then show ?thesis using grows_same [of c c] by (simp add: add_note_def)
next
  case True
  then show ?thesis
    by (intro growsI [where new = "[\<lparr>step_number = step c + 1, timestamp = now e,
          step_type = ''note'', content = tx, application = get_active_window_title e,
          screenshot = None, coordinates = None, button = None, key_strs = None\<rparr>]"])
      (simp_all add: add_note_def upd_stats_def Let_def)
qed

lemma grows_stop_recording: "grows c (snd (stop_recording e c))"
proof -
  obtain r c1 where rk: "record_keystroke_group e c = (r, c1)" by fastforce
  have g1: "grows c c1" using grows_record_keystroke_group [of c e] rk by simp
  have g0: "grows c c" using grows_same [of c c] by simp
  show ?thesis
    by (rule grows_frame [where ?c1.0 = "if recording c \<and> current_keystrokes c \<noteq> [] then c1 else c"])
      (use g0 g1 rk in \<open>auto simp: stop_recording_def upd_stats_def Let_def
          split: outcome.splits option.splits\<close>)
qed

lemma grows_on_click: "grows c (snd (on_click x y b pressed e c))"
proof -
  obtain r c1 where rk: "record_keystroke_group e c = (r, c1)" by fastforce
  have g1: "grows c c1" using grows_record_keystroke_group [of c e] rk by simp
  have g0: "grows c c" using grows_same [of c c] by simp
  show ?thesis
    by (rule grows_frame [where ?c1.0 = "if pressed \<and> recording c \<and> \<not> paused c
          \<and> current_keystrokes c \<noteq> [] then c1 else c"])
      (use g0 g1 rk in \<open>auto simp: on_click_def split: outcome.splits\<close>)
qed

lemma grows_on_key_release: "grows c (snd (on_key_release k e c))"
proof -
  obtain r c1 where rk: "record_keystroke_group e c = (r, c1)" by fastforce
  have g1: "grows c c1" using grows_record_keystroke_group [of c e] rk by simp
  have g0: "grows c c" using grows_same [of c c] by simp
  show ?thesis
    by (rule grows_frame [where ?c1.0 = "if recording c \<and> \<not> paused c
          \<and> current_keystrokes c \<noteq> []
          \<and> now_ms e - last_key_time c > key_grouping_delay c then c1 else c"])
      (use g0 g1 rk in \<open>auto simp: on_key_release_def Let_def split: outcome.splits\<close>)
qed

lemma process_queue_always:
  assumes upd: "\<And>c q. P c \<Longrightarrow> P (c\<lparr>queue := q\<rparr>)"
    and rc: "\<And>x y b e c. P c \<Longrightarrow> P (snd (record_click x y b e c))"
  shows "P c \<Longrightarrow> P (snd (process_queue envs c))"
proof (induction "queue c" arbitrary: envs c)
  case Nil
  then show ?case by (simp add: process_queue_Nil)
next
  case (Cons item rest)
  obtain x y b where item: "item = QClick x y b" by (cases item)
  have q: "queue c = QClick x y b # rest" using Cons.hyps(2) item by simp
  let ?c1 = "snd (record_click x y b (envs 0) (c\<lparr>queue := rest\<rparr>))"
  have p1: "P ?c1" using rc [OF upd [OF Cons.prems]] .
  show ?case
  proof (cases "capture_ok (envs 0)")
    case True
    have step: "process_queue envs c = process_queue (\<lambda>i. envs (Suc i)) ?c1"
      using process_queue_ok [of c x y b rest envs] q True by simp
    have "rest = queue ?c1" by simp
    then have "P (snd (process_queue (\<lambda>i. envs (Suc i)) ?c1))"
      using Cons.hyps(1) p1 by blast
    then show ?thesis using step by simp
  next
    case False
    then show ?thesis using p1 process_queue_fail [of c x y b rest envs] q by simp
  qed
qed

lemma grows_process_queue: "grows c (snd (process_queue envs c))"
proof -
  have "grows c c" using grows_same [of c c] by simp
  moreover have "\<And>d q. grows c d \<Longrightarrow> grows c (d\<lparr>queue := q\<rparr>)"
    by (simp add: grows_def later_steps_def)
  moreover have "\<And>x y b e d. grows c d \<Longrightarrow> grows c (snd (record_click x y b e d))"
    using grows_trans grows_record_click by blast
  ultimately show ?thesis
    using process_queue_always [of "grows c" c envs] by blast
qed

lemma timer_loop_frame:
  "current_keystrokes (timer_loop ts c) = current_keystrokes c
   \<and> steps (session (timer_loop ts c)) = steps (session c)
   \<and> step (timer_loop ts c) = step c
   \<and> recording (timer_loop ts c) = recording c
   \<and> session_start_time (session (timer_loop ts c)) = session_start_time (session c)"
  by (induction ts arbitrary: c) (simp_all add: upd_stats_def)

lemma grows_perform: "\<not> is_start a \<Longrightarrow> grows c (snd (perform a c))"
proof (cases a)
  case (StopRecording e)
  then show ?thesis using grows_stop_recording [of c e] by (simp add: case_prod_beta)
next
  case PauseRecording
  then show ?thesis using grows_same [of "snd (pause_recording c)" c]
    by (simp add: case_prod_beta pause_recording_def)
next
  case ResumeRecording
  then show ?thesis using grows_same [of "snd (resume_recording c)" c]
    by (simp add: case_prod_beta resume_recording_def)
next
  case (AddNote tx e)
  then show ?thesis using grows_add_note [of c tx e] by (simp add: case_prod_beta)
next
  case (OnClick x y b pressed e)
  then show ?thesis using grows_on_click [of c x y b pressed e] by (simp add: case_prod_beta)
next
  case (OnKeyRelease k e)
  then show ?thesis using grows_on_key_release [of c k e] by (simp add: case_prod_beta)
next
  case (ProcessQueue envs)
  then show ?thesis using grows_process_queue [of c envs] by (simp add: case_prod_beta)
next
  case (TimerLoop ts)
  then show ?thesis using grows_same [of "timer_loop ts c" c] timer_loop_frame [of ts c]
    by simp
qed simp

lemma grows_run: "list_all (\<lambda>a. \<not> is_start a) as \<Longrightarrow> grows c (run as c)"
proof (induction as arbitrary: c)
  case Nil
  then show ?case using grows_same [of c c] by simp
next
  case (Cons a as)
  then show ?case using grows_trans [OF grows_perform [of a c]] by simp
qed

section \<open>Keystrokes precede the click that ends them\<close>

text \<open>
  A click whose handling raised (the flush of the open group met a failed capture) was
  not put on the queue, so no step will stand for it.
\<close>

lemma raising_click_not_queued:
  assumes "fst (on_click x y b pressed e c) \<noteq> Returned ()"
  shows "queue (snd (on_click x y b pressed e c)) = queue c"
proof (cases "pressed \<and> recording c \<and> \<not> paused c \<and> current_keystrokes c \<noteq> []")
  case False
  then have "fst (on_click x y b pressed e c) = Returned ()"
    by (auto simp: on_click_def)
  then show ?thesis using assms by simp
next
  case True
  show ?thesis
  proof (cases "capture_ok e")
    case ok: True
    obtain sd c' where "record_keystroke_group e c = (Returned (), c')"
      using record_keystroke_group_ok [OF ok] True by blast
    then show ?thesis using assms True by (simp add: on_click_def)
  next
    case False
    obtain c' where "record_keystroke_group e c = (Raised CaptureError, c')" "queue c' = queue c"
      using record_keystroke_group_fail [OF False] True by blast
    then show ?thesis using True by (simp add: on_click_def)
  qed
qed

text \<open>
  C2. A click that arrives while a keystroke group is open, and is accepted (the
  recorder is recording and not paused, and the flush did not raise): the group's step
  is appended inside \<open>_on_click\<close>, before the click is put on the queue. Whatever
  calls follow in the same recording, every step appended later, the click's among
  them, comes after the group's step and has a strictly larger number; when the queue
  is then drained, the click's step is the one right after the group's.
\<close>

theorem keystrokes_before_click:
  assumes "recording c" "\<not> paused c" "current_keystrokes c \<noteq> []"
    and "on_click x y b True e c = (Returned (), c1)"
  shows "\<exists>g. steps (session c1) = steps (session c) @ [g]
      \<and> step_type g = ''keystroke''
      \<and> key_strs g = Some (map str (current_keystrokes c))
      \<and> current_keystrokes c1 = []
      \<and> queue c1 = queue c @ [QClick x y b]
      \<and> (\<forall>as. list_all (\<lambda>a. \<not> is_start a) as \<longrightarrow>
            (\<exists>rest. steps (session (run as c1)) = steps (session c) @ [g] @ rest
               \<and> list_all (\<lambda>sd. step_number g < step_number sd) rest))
      \<and> (\<forall>envs. queue c = [] \<and> capture_ok (envs 0) \<longrightarrow>
            (\<exists>k. steps (session (snd (process_queue envs c1))) = steps (session c) @ [g, k]
               \<and> step_type k = ''click'' \<and> coordinates k = Some (x, y)
               \<and> step_number g < step_number k))"
proof -
  have ok: "capture_ok e"
  proof (rule ccontr)
    assume "\<not> capture_ok e"
    then obtain c' where "record_keystroke_group e c = (Raised CaptureError, c')"
      using record_keystroke_group_fail [OF _ assms(3), of e] by blast
    then show False using assms by (simp add: on_click_def)
  qed
  obtain g c' where r: "record_keystroke_group e c = (Returned (), c')"
      "steps (session c') = steps (session c) @ [g]"
      "step_number g = step c + 1" "step_type g = ''keystroke''"
      "key_strs g = Some (map str (current_keystrokes c))"
      "step c' = step c + 1" "current_keystrokes c' = []" "queue c' = queue c"
    using record_keystroke_group_ok [OF ok assms(3)] by blast
  have c1: "c1 = c'\<lparr>last_click := (x, y), queue := queue c' @ [QClick x y b]\<rparr>"
    using assms r(1) by (simp add: on_click_def)
  have s1: "steps (session c1) = steps (session c) @ [g]" "step c1 = step_number g"
      "current_keystrokes c1 = []" "queue c1 = queue c @ [QClick x y b]"
    using c1 r by simp_all
  have later: "\<exists>rest. steps (session (run as c1)) = steps (session c) @ [g] @ rest
               \<and> list_all (\<lambda>sd. step_number g < step_number sd) rest"
    if "list_all (\<lambda>a. \<not> is_start a) as" for as
  proof -
    have g: "grows c1 (run as c1)" using grows_run [OF that] .
    have "steps (session (run as c1)) = steps (session c) @ [g] @ later_steps c1 (run as c1)"
      using g s1 by (simp add: grows_def)
    moreover have "list_all (\<lambda>sd. step_number g < step_number sd) (later_steps c1 (run as c1))"
      using g s1 by (auto simp: grows_def list_all_iff)
    ultimately show ?thesis by blast
  qed
  have direct: "\<exists>k. steps (session (snd (process_queue envs c1))) = steps (session c) @ [g, k]
               \<and> step_type k = ''click'' \<and> coordinates k = Some (x, y)
               \<and> step_number g < step_number k"
    if h: "queue c = [] \<and> capture_ok (envs 0)" for envs
  proof -
    have q: "queue c1 = QClick x y b # []" using s1 h by simp
    obtain k c2 where k: "record_click x y b (envs 0) (c1\<lparr>queue := []\<rparr>) = (Returned (), c2)"
        "steps (session c2) = steps (session (c1\<lparr>queue := []\<rparr>)) @ [k]"
        "step_number k = step (c1\<lparr>queue := []\<rparr>) + 1" "step_type k = ''click''"
        "coordinates k = Some (x, y)" "queue c2 = queue (c1\<lparr>queue := []\<rparr>)"
      using h record_click_ok [of "envs 0" x y b "c1\<lparr>queue := []\<rparr>"] by blast
    have "process_queue envs c1 = process_queue (\<lambda>i. envs (Suc i)) c2"
      using process_queue_ok [of c1 x y b "[]" envs] q h k(1) by simp
    also have "\<dots> = (Returned (), c2)" using k(6) by (simp add: process_queue_Nil)
    finally show ?thesis using k s1 by simp
  qed
  show ?thesis using s1 r(4,5) later direct by blast
qed

theorem keystrokes_before_click_witness:
  "recording (run [StartRecording ListenersOk 1,
                   OnKeyRelease (char_key CHR ''a'') (at_time 2)] init)
   \<and> \<not> paused (run [StartRecording ListenersOk 1,
                   OnKeyRelease (char_key CHR ''a'') (at_time 2)] init)
   \<and> current_keystrokes (run [StartRecording ListenersOk 1,
                   OnKeyRelease (char_key CHR ''a'') (at_time 2)] init) \<noteq> []
   \<and> fst (on_click 10 20 ''Button.left'' True (at_time 3)
           (run [StartRecording ListenersOk 1,
                 OnKeyRelease (char_key CHR ''a'') (at_time 2)] init)) = Returned ()
   \<and> (\<exists>g. steps (session (snd (on_click 10 20 ''Button.left'' True (at_time 3)
           (run [StartRecording ListenersOk 1,
                 OnKeyRelease (char_key CHR ''a'') (at_time 2)] init)))) = [g]
        \<and> step_type g = ''keystroke'')
   \<and> map step_type (steps (session (run [StartRecording ListenersOk 1,
         OnKeyRelease (char_key CHR ''a'') (at_time 2),
         OnClick 10 20 ''Button.left'' True (at_time 3),
         ProcessQueue (\<lambda>i. at_time 4)] init))) = [''keystroke'', ''click'']
   \<and> map step_number (steps (session (run [StartRecording ListenersOk 1,
         OnKeyRelease (char_key CHR ''a'') (at_time 2),
         OnClick 10 20 ''Button.left'' True (at_time 3),
         ProcessQueue (\<lambda>i. at_time 4)] init))) = [1, 2]"
proof -
  let ?c = "run [StartRecording ListenersOk 1,
                 OnKeyRelease (char_key CHR ''a'') (at_time 2)] init"
  let ?c1 = "snd (on_click 10 20 ''Button.left'' True (at_time 3) ?c)"
  have h1: "recording ?c" by code_simp
  have h2: "\<not> paused ?c" by code_simp
  have h3: "current_keystrokes ?c \<noteq> []" by code_simp
  have f: "fst (on_click 10 20 ''Button.left'' True (at_time 3) ?c) = Returned ()"
    by code_simp
  have h4: "on_click 10 20 ''Button.left'' True (at_time 3) ?c = (Returned (), ?c1)"
    using f by (metis prod.collapse)
  have s0: "steps (session ?c) = []" by code_simp
  have t: "map step_type (steps (session (run [StartRecording ListenersOk 1,
         OnKeyRelease (char_key CHR ''a'') (at_time 2),
         OnClick 10 20 ''Button.left'' True (at_time 3),
         ProcessQueue (\<lambda>i. at_time 4)] init))) = [''keystroke'', ''click'']"
    by code_simp
  have n: "map step_number (steps (session (run [StartRecording ListenersOk 1,
         OnKeyRelease (char_key CHR ''a'') (at_time 2),
         OnClick 10 20 ''Button.left'' True (at_time 3),
         ProcessQueue (\<lambda>i. at_time 4)] init))) = [1, 2]"
    by code_simp
  obtain g where "steps (session ?c1) = steps (session ?c) @ [g]" "step_type g = ''keystroke''"
    using keystrokes_before_click [OF h1 h2 h3 h4] by blast
  then have "\<exists>g. steps (session ?c1) = [g] \<and> step_type g = ''keystroke''"
    using s0 by simp
  then show ?thesis using h1 h2 h3 f t n by blast
qed

section \<open>Statistics against the step list\<close>

theorem statistics_agree_with_steps_witness:
  "\<not> capture_failed
       [StartRecording ListenersOk 1, OnClick 10 20 ''Button.left'' True (at_time 2),
        ProcessQueue (\<lambda>i. at_time 3), OnKeyRelease (char_key CHR ''a'') (at_time 4),
        OnKeyRelease (char_key CHR ''b'') (at_time 4.5), AddNote (py ''hello'') (at_time 5),
        StopRecording (at_time 6)] init
   \<and> total_steps (statistics (session (run
       [StartRecording ListenersOk 1, OnClick 10 20 ''Button.left'' True (at_time 2),
        ProcessQueue (\<lambda>i. at_time 3), OnKeyRelease (char_key CHR ''a'') (at_time 4),
        OnKeyRelease (char_key CHR ''b'') (at_time 4.5), AddNote (py ''hello'') (at_time 5),
        StopRecording (at_time 6)] init))) = 3
   \<and> keystrokes (statistics (session (run
       [StartRecording ListenersOk 1, OnClick 10 20 ''Button.left'' True (at_time 2),
        ProcessQueue (\<lambda>i. at_time 3), OnKeyRelease (char_key CHR ''a'') (at_time 4),
        OnKeyRelease (char_key CHR ''b'') (at_time 4.5), AddNote (py ''hello'') (at_time 5),
        StopRecording (at_time 6)] init))) = 2"
proof -
  let ?as = "[StartRecording ListenersOk 1, OnClick 10 20 ''Button.left'' True (at_time 2),
        ProcessQueue (\<lambda>i. at_time 3), OnKeyRelease (char_key CHR ''a'') (at_time 4),
        OnKeyRelease (char_key CHR ''b'') (at_time 4.5), AddNote (py ''hello'') (at_time 5),
        StopRecording (at_time 6)]"
  have h: "\<not> capture_failed ?as init" by code_simp
  have n: "int (length (steps (session (run ?as init)))) = 3" by code_simp
  have k: "sum_list (map keys_in (steps (session (run ?as init)))) = 2" by code_simp
  show ?thesis using h n k statistics_agree_with_steps [OF h] by simp
qed

text \<open>
  C9, as stated, fails on the keystroke statistic: it counts key events, not groups.
  Two keys released half a second apart and flushed by the stop make one keystroke
  step, and the statistic is 2.
\<close>

theorem keystroke_statistic_counterexample:
  "keystrokes (statistics (session (run
       [StartRecording ListenersOk 1, OnKeyRelease (char_key CHR ''a'') (at_time 2),
        OnKeyRelease (char_key CHR ''b'') (at_time 2.5), StopRecording (at_time 3)] init))) = 2
   \<and> int (length (filter (\<lambda>sd. step_type sd = ''keystroke'') (steps (session (run
       [StartRecording ListenersOk 1, OnKeyRelease (char_key CHR ''a'') (at_time 2),
        OnKeyRelease (char_key CHR ''b'') (at_time 2.5), StopRecording (at_time 3)] init))))) = 1"
  by code_simp

section \<open>Step numbers\<close>

text \<open>
  In a run from the initial state in which no call raised out of a failed capture, the
  step numbers are \<open>1..N\<close> in order and the counter is \<open>N\<close>.
\<close>

lemma numbers_without_failed_capture:
  assumes "\<not> capture_failed as init"
  shows "map step_number (steps (session (run as init)))
           = [1..int (length (steps (session (run as init))))]
       \<and> step (run as init) = int (length (steps (session (run as init))))"
  using sound_run [OF sound_init assms] by (simp add: sound_def numbered_def)

text \<open>
  C1 on a run with a failed capture. \<open>_record_click\<close> increments the counter
  before it captures; the first click's capture fails, the exception leaves
  \<open>process_queue\<close>, and the counter stays at 1 with no step appended. The second
  click is recorded as step 2: the session holds one step, numbered 2.
\<close>

theorem failed_capture_leaves_gap:
  "map step_number (steps (session (run
       [StartRecording ListenersOk 1, OnClick 10 20 ''Button.left'' True (at_time 2),
        ProcessQueue (\<lambda>i. failing_at 3), OnClick 30 40 ''Button.left'' True (at_time 4),
        ProcessQueue (\<lambda>i. at_time 5)] init))) = [2]"
  by code_simp

section \<open>A failed screenshot capture\<close>

text \<open>
  C5 on the code. A click whose capture fails: \<open>process_queue\<close> raises, no step is
  appended, the counter has moved to 1. A keystroke group whose capture fails when a
  click flushes it: \<open>_on_click\<close> raises and no step is appended.
\<close>

theorem failed_capture_raises:
  "fst (perform (ProcessQueue (\<lambda>i. failing_at 3))
         (run [StartRecording ListenersOk 1,
               OnClick 10 20 ''Button.left'' True (at_time 2)] init)) = Some CaptureError
   \<and> steps (session (run [StartRecording ListenersOk 1,
               OnClick 10 20 ''Button.left'' True (at_time 2),
               ProcessQueue (\<lambda>i. failing_at 3)] init)) = []
   \<and> step (run [StartRecording ListenersOk 1,
               OnClick 10 20 ''Button.left'' True (at_time 2),
               ProcessQueue (\<lambda>i. failing_at 3)] init) = 1
   \<and> fst (perform (OnClick 10 20 ''Button.left'' True (failing_at 3))
         (run [StartRecording ListenersOk 1,
               OnKeyRelease (char_key CHR ''a'') (at_time 2)] init)) = Some CaptureError
   \<and> steps (session (run [StartRecording ListenersOk 1,
               OnKeyRelease (char_key CHR ''a'') (at_time 2),
               OnClick 10 20 ''Button.left'' True (failing_at 3)] init)) = []"
  by code_simp

section \<open>The timer\<close>

text \<open>
  C3 on the code. The timer loop only writes \<open>recording_duration\<close>: whatever the
  clock readings of its iterations, the open group, the step list and the counter are as
  before. A key released at second 2 is still an open group, and no step exists,
  after iterations at seconds 3, 4, 5, 60 and 3600.
\<close>

theorem timer_never_flushes:
  "current_keystrokes (timer_loop ts c) = current_keystrokes c
   \<and> steps (session (timer_loop ts c)) = steps (session c)
   \<and> step (timer_loop ts c) = step c
   \<and> current_keystrokes (run [StartRecording ListenersOk 1,
         OnKeyRelease (char_key CHR ''a'') (at_time 2),
         TimerLoop [3, 4, 5, 60, 3600]] init) = [char_key CHR ''a'']
   \<and> steps (session (run [StartRecording ListenersOk 1,
         OnKeyRelease (char_key CHR ''a'') (at_time 2),
         TimerLoop [3, 4, 5, 60, 3600]] init)) = []"
proof -
  have a: "current_keystrokes (run [StartRecording ListenersOk 1,
         OnKeyRelease (char_key CHR ''a'') (at_time 2),
         TimerLoop [3, 4, 5, 60, 3600]] init) = [char_key CHR ''a'']"
    by code_simp
  have b: "steps (session (run [StartRecording ListenersOk 1,
         OnKeyRelease (char_key CHR ''a'') (at_time 2),
         TimerLoop [3, 4, 5, 60, 3600]] init)) = []"
    by code_simp
  show ?thesis using a b timer_loop_frame [of ts c] by simp
qed

section \<open>Duration across a pause\<close>

text \<open>
  The duration that \<open>stop_recording\<close> stores is the time from the session's start
  to the stop, whatever happened in between.
\<close>

lemma record_keystroke_group_start_time:
  "session_start_time (session (snd (record_keystroke_group e c)))
     = session_start_time (session c)"
  by (simp add: record_keystroke_group_def capture_and_highlight_def upd_stats_def Let_def)

lemma stop_duration:
  assumes "recording c" "session_start_time (session c) = Some st"
    "current_keystrokes c = [] \<or> capture_ok e"
  shows "fst (stop_recording e c) = Returned True
       \<and> recording_duration (statistics (session (snd (stop_recording e c)))) = now e - st"
proof (cases "current_keystrokes c = []")
  case True
  then show ?thesis using assms by (simp add: stop_recording_def upd_stats_def Let_def)
next
  case False
  then have ok: "capture_ok e" using assms(3) by simp
  obtain c' where r: "record_keystroke_group e c = (Returned (), c')"
    using record_keystroke_group_ok [OF ok False] by blast
  have "session_start_time (session c') = Some st"
    using record_keystroke_group_start_time [of e c] r assms(2) by simp
  then show ?thesis using assms False r
    by (simp add: stop_recording_def upd_stats_def Let_def)
qed

text \<open>
  C4 on the code. Start at second 100, timer iterations at 105 and 109, pause (at 110),
  resume (at 120), an iteration at 125, stop at 130. While paused the duration is frozen:
  read at 115 it is the 9 seconds the timer stored last. After the resume the paused
  interval is back: read at 125 it is 25, and \<open>stop_recording\<close> stores
  \<open>130 - 100 = 30\<close>, where the claim gives \<open>(110 - 100) + (130 - 120) = 20\<close>.
  Neither \<open>pause_recording\<close> nor \<open>resume_recording\<close> reads the clock.
\<close>

theorem paused_interval_counted:
  "get_recording_duration 115
     (run [StartRecording ListenersOk 100, TimerLoop [105, 109], PauseRecording] init) = 9
   \<and> get_recording_duration 125
     (run [StartRecording ListenersOk 100, TimerLoop [105, 109], PauseRecording,
           ResumeRecording] init) = 25
   \<and> recording_duration (statistics (session
        (run [StartRecording ListenersOk 100, TimerLoop [105, 109], PauseRecording,
              ResumeRecording, TimerLoop [125], StopRecording (at_time 130)] init))) = 30
   \<and> (30::real) \<noteq> (110 - 100) + (130 - 120)"
  by code_simp

section \<open>A listener that fails to start\<close>

text \<open>
  C6, as stated, fails: \<open>start_recording\<close> does not return a failure value, it
  raises.
\<close>

theorem listener_failure_counterexample:
  "fst (start_recording MouseStartFails 1 init) = Raised ListenerError
   \<and> fst (start_recording MouseStartFails 1 init) \<noteq> Returned False"
  by code_simp

text \<open>
  C6, amended. When no recording is in progress and a listener fails to be built or
  started, \<open>start_recording\<close> raises to its caller; afterwards \<open>recording\<close> and
  \<open>paused\<close> are false, the timer was not started, and the counter and the session
  have been reset (counter 0, no steps).
\<close>

theorem listener_failure_raises:
  assumes "\<not> recording c" "ls \<noteq> ListenersOk"
  shows "fst (start_recording ls t c) = Raised ListenerError
       \<and> \<not> recording (snd (start_recording ls t c))
       \<and> \<not> paused (snd (start_recording ls t c))
       \<and> timer_running (snd (start_recording ls t c)) = timer_running c
       \<and> step (snd (start_recording ls t c)) = 0
       \<and> steps (session (snd (start_recording ls t c))) = []"
  using assms by (cases ls) (simp_all add: start_recording_def Let_def new_session_def)

theorem listener_failure_raises_witness:
  "\<not> recording init \<and> KbStartFails \<noteq> ListenersOk
   \<and> fst (start_recording KbStartFails 1 init) = Raised ListenerError
   \<and> \<not> recording (snd (start_recording KbStartFails 1 init))
   \<and> \<not> paused (snd (start_recording KbStartFails 1 init))
   \<and> step (snd (start_recording KbStartFails 1 init)) = 0
   \<and> steps (session (snd (start_recording KbStartFails 1 init))) = []"
proof -
  have h1: "\<not> recording init" by code_simp
  have h2: "KbStartFails \<noteq> ListenersOk" by simp
  show ?thesis using h1 h2 listener_failure_raises [OF h1 h2, of 1] by simp
qed

section \<open>Notes\<close>

text \<open>
  What \<open>add_note\<close> does while recording: it returns \<open>True\<close>, appends one note
  step with the given text, no screenshot and the next number, and adds one to the note
  counter; it does not look at the open keystroke group. Start, add the note
  \<open>hello\<close>, stop: the session holds exactly one step, that note.
\<close>

lemma add_note_effect:
  assumes "recording c"
  shows "fst (add_note tx e c) = Returned True
       \<and> (\<exists>sd. steps (session (snd (add_note tx e c))) = steps (session c) @ [sd]
             \<and> step_type sd = ''note'' \<and> content sd = tx \<and> screenshot sd = None
             \<and> step_number sd = step c + 1)
       \<and> notes (statistics (session (snd (add_note tx e c))))
           = notes (statistics (session c)) + 1
       \<and> current_keystrokes (snd (add_note tx e c)) = current_keystrokes c
       \<and> (\<exists>sd. steps (session (run [StartRecording ListenersOk t0, AddNote (py ''hello'') e1,
                                     StopRecording e2] init)) = [sd]
             \<and> step_type sd = ''note'' \<and> content sd = py ''hello'' \<and> screenshot sd = None)"
proof -
  have a: "fst (add_note tx e c) = Returned True
       \<and> (\<exists>sd. steps (session (snd (add_note tx e c))) = steps (session c) @ [sd]
             \<and> step_type sd = ''note'' \<and> content sd = tx \<and> screenshot sd = None
             \<and> step_number sd = step c + 1)
       \<and> notes (statistics (session (snd (add_note tx e c))))
           = notes (statistics (session c)) + 1
       \<and> current_keystrokes (snd (add_note tx e c)) = current_keystrokes c"
    using assms by (simp add: add_note_def upd_stats_def Let_def)
  have b: "\<exists>sd. steps (session (run [StartRecording ListenersOk t0, AddNote (py ''hello'') e1,
                                     StopRecording e2] init)) = [sd]
             \<and> step_type sd = ''note'' \<and> content sd = py ''hello'' \<and> screenshot sd = None"
    by (simp add: start_recording_def add_note_def stop_recording_def upd_stats_def Let_def
        init_def new_session_def empty_stats_def case_prod_beta)
  show ?thesis using a b by blast
qed

text \<open>
  C7 on the code. \<open>_on_click\<close> and \<open>stop_recording\<close> record the pending
  keystrokes before their own step; \<open>add_note\<close> does not. With the key \<open>a\<close>
  released and then a note added, the only step is the note and the group is still
  open; the stop that follows records the keystrokes after the note, so the steps are
  a note and then the keystrokes typed before it.
\<close>

theorem note_leaves_group_open:
  "map step_type (steps (session (snd (add_note (py ''hello'') (at_time 3)
        (run [StartRecording ListenersOk 1,
              OnKeyRelease (char_key CHR ''a'') (at_time 2)] init))))) = [''note'']
   \<and> current_keystrokes (snd (add_note (py ''hello'') (at_time 3)
        (run [StartRecording ListenersOk 1,
              OnKeyRelease (char_key CHR ''a'') (at_time 2)] init))) = [char_key CHR ''a'']
   \<and> map step_type (steps (session (run [StartRecording ListenersOk 1,
              OnKeyRelease (char_key CHR ''a'') (at_time 2),
              AddNote (py ''hello'') (at_time 3),
              StopRecording (at_time 4)] init))) = [''note'', ''keystroke'']"
  by code_simp

end
